theory Spec2Isabelle
  imports Complex_Main
begin

section \<open>Water-rocket server: broadcast hub and flight simulator\<close>

text \<open>
  A shallow embedding of \<^verbatim>\<open>server.py\<close>. The hub (class \<^verbatim>\<open>ConnectionManager\<close> and the
  receive loop of \<^verbatim>\<open>websocket_endpoint\<close>) is modelled sequentially: one call runs to its
  end before the next one starts. The simulator \<^verbatim>\<open>simulate_flight\<close> is modelled over the
  real numbers further below.
\<close>

subsection \<open>JSON values and frames\<close>

text \<open>
  What \<^verbatim>\<open>receive_json\<close> returns and \<^verbatim>\<open>send_json\<close> takes. A Python dict is an association
  list read with \<open>map_of\<close>.
\<close>

datatype json =
    JNull
  | JBool bool
  | JNum real
  | JStr string
  | JArr "json list"
  | JObj "(string \<times> json) list"

text \<open>\<^verbatim>\<open>data.get(key, default)\<close> on a dict.\<close>

definition dict_get :: "(string \<times> json) list \<Rightarrow> string \<Rightarrow> json \<Rightarrow> json" where
  "dict_get d k dflt = (case map_of d k of None \<Rightarrow> dflt | Some v \<Rightarrow> v)"

subsection \<open>ConnectionManager\<close>

text \<open>
  The registry is the list \<^verbatim>\<open>active_connections\<close>; a socket is a value of type \<open>'ws\<close>
  compared by identity. \<^verbatim>\<open>websocket.accept()\<close> and \<^verbatim>\<open>connection.send_json(message)\<close> are
  effects of the environment: whether they return or raise is a parameter
  (\<open>accept_ok\<close>, \<open>send_ok\<close>), and the frames a call delivers are returned beside the
  new registry.
\<close>

datatype hub_error = HandshakeFailed

definition connect :: "bool \<Rightarrow> 'ws \<Rightarrow> 'ws list \<Rightarrow> hub_error + 'ws list" where
  "connect accept_ok websocket conns =
     (if accept_ok then Inr (conns @ [websocket]) else Inl HandshakeFailed)"

definition disconnect :: "'ws \<Rightarrow> 'ws list \<Rightarrow> 'ws list" where
  "disconnect websocket conns =
     (if websocket \<in> set conns then remove1 websocket conns else conns)"

text \<open>
  The body of \<^verbatim>\<open>for connection in list(self.active_connections)\<close>: the first argument
  is what is left of the snapshot, the state is the live registry and the frames
  delivered so far.
\<close>

fun broadcast_loop ::
  "('ws \<Rightarrow> bool) \<Rightarrow> json \<Rightarrow> 'ws list \<Rightarrow> 'ws list \<times> ('ws \<times> json) list
     \<Rightarrow> 'ws list \<times> ('ws \<times> json) list" where
  "broadcast_loop send_ok message [] st = st"
| "broadcast_loop send_ok message (connection # rest) (conns, sent) =
     (if send_ok connection
      then broadcast_loop send_ok message rest (conns, sent @ [(connection, message)])
      else broadcast_loop send_ok message rest (disconnect connection conns, sent))"

definition broadcast ::
  "('ws \<Rightarrow> bool) \<Rightarrow> json \<Rightarrow> 'ws list \<Rightarrow> 'ws list \<times> ('ws \<times> json) list" where
  "broadcast send_ok message conns = broadcast_loop send_ok message conns (conns, [])"

subsection \<open>Sequences of registry operations\<close>





subsection \<open>The receive loop of the live channel\<close>

text \<open>
  What one \<^verbatim>\<open>await websocket.receive_json()\<close> does: it returns a parsed frame, raises
  \<^verbatim>\<open>WebSocketDisconnect\<close> (\<open>Closed\<close>) or raises another exception (\<open>Undecodable\<close>: the text
  is not JSON).
\<close>

datatype inbound = Frame json | Undecodable | Closed

definition chat_message :: "(string \<times> json) list \<Rightarrow> json" where
  "chat_message data =
     JObj [(''channel'', JStr ''chat''),
           (''data'', JObj [(''user'', dict_get data ''user'' (JStr ''anon'')),
                            (''text'', dict_get data ''text'' (JStr ''''))])]"

text \<open>
  One turn of \<^verbatim>\<open>while True\<close>: the new registry, the frames delivered, and whether the
  loop goes on. On a frame that is not a dict \<^verbatim>\<open>data.get\<close> raises \<^verbatim>\<open>AttributeError\<close>, which
  \<^verbatim>\<open>except Exception\<close> catches: the socket is removed and the handler ends.
\<close>

fun handle_inbound ::
  "('ws \<Rightarrow> bool) \<Rightarrow> 'ws \<Rightarrow> inbound \<Rightarrow> 'ws list \<Rightarrow> 'ws list \<times> ('ws \<times> json) list \<times> bool" where
  "handle_inbound send_ok websocket (Frame (JObj data)) conns =
     (if map_of data ''type'' = Some (JStr ''chat'')
      then (let (conns', sent) = broadcast send_ok (chat_message data) conns
            in (conns', sent, True))
      else (conns, [], True))"
| "handle_inbound send_ok websocket (Frame other) conns = (disconnect websocket conns, [], False)"
| "handle_inbound send_ok websocket Undecodable conns = (disconnect websocket conns, [], False)"
| "handle_inbound send_ok websocket Closed conns = (disconnect websocket conns, [], False)"

fun receive_loop ::
  "('ws \<Rightarrow> bool) \<Rightarrow> 'ws \<Rightarrow> inbound list \<Rightarrow> 'ws list \<times> ('ws \<times> json) list
     \<Rightarrow> 'ws list \<times> ('ws \<times> json) list \<times> bool" where
  "receive_loop send_ok websocket [] (conns, sent) = (conns, sent, True)"
| "receive_loop send_ok websocket (ev # evs) (conns, sent) =
     (case handle_inbound send_ok websocket ev conns of
        (conns', sent', go_on) \<Rightarrow>
          if go_on then receive_loop send_ok websocket evs (conns', sent @ sent')
          else (conns', sent @ sent', False))"

definition websocket_endpoint ::
  "bool \<Rightarrow> ('ws \<Rightarrow> bool) \<Rightarrow> 'ws \<Rightarrow> inbound list \<Rightarrow> 'ws list
     \<Rightarrow> hub_error + 'ws list \<times> ('ws \<times> json) list \<times> bool" where
  "websocket_endpoint accept_ok send_ok websocket evs conns =
     (case connect accept_ok websocket conns of
        Inl e \<Rightarrow> Inl e
      | Inr conns' \<Rightarrow> Inr (receive_loop send_ok websocket evs (conns', [])))"

section \<open>Flight simulator\<close>

text \<open>
  A Python float is modelled as a real number: sums, products, quotients, square roots
  and powers are exact, so rounding, infinities and NaN are outside the model. The
  exceptions that the operators of \<^verbatim>\<open>simulate_flight\<close> can raise are branches of the
  model: \<^verbatim>\<open>ZeroDivisionError\<close> of \<^verbatim>\<open>/\<close> and of a zero base under a negative exponent,
  \<^verbatim>\<open>ValueError\<close> of \<^verbatim>\<open>math.sqrt\<close> and of \<^verbatim>\<open>max\<close> on an empty list, \<^verbatim>\<open>IndexError\<close> of
  \<^verbatim>\<open>xs[-1]\<close>, \<^verbatim>\<open>OverflowError\<close> of \<^verbatim>\<open>**\<close> when the power is beyond the largest double
  (compared here on the exact power), and \<^verbatim>\<open>TypeError\<close> where \<^verbatim>\<open>**\<close> of a negative base
  and a fractional exponent gives a complex number, which the \<^verbatim>\<open>max\<close> that follows in
  the source cannot compare.
\<close>

datatype py_error = ZeroDivisionError | ValueError | IndexError | OverflowError | TypeError

definition bindE :: "py_error + 'a \<Rightarrow> ('a \<Rightarrow> py_error + 'b) \<Rightarrow> py_error + 'b" where
  "bindE m f = (case m of Inl err \<Rightarrow> Inl err | Inr v \<Rightarrow> f v)"

definition float_max :: real where
  "float_max = (2 - 1 / 2 ^ 52) * 2 ^ 1023"

definition py_div :: "real \<Rightarrow> real \<Rightarrow> py_error + real" where
  "py_div a b = (if b = 0 then Inl ZeroDivisionError else Inr (a / b))"

definition py_sqrt :: "real \<Rightarrow> py_error + real" where
  "py_sqrt a = (if a < 0 then Inl ValueError else Inr (sqrt a))"

definition py_pow :: "real \<Rightarrow> real \<Rightarrow> py_error + real" where
  "py_pow a b =
     (if b = 0 then Inr 1
      else if a = 0 then (if b < 0 then Inl ZeroDivisionError else Inr 0)
      else if a < 0 \<and> b \<noteq> of_int \<lfloor>b\<rfloor> then Inl TypeError
      else (let r = (if a < 0 \<and> odd \<lfloor>b\<rfloor> then - (\<bar>a\<bar> powr b) else \<bar>a\<bar> powr b)
            in if float_max < \<bar>r\<bar> then Inl OverflowError else Inr r))"

definition hypot :: "real \<Rightarrow> real \<Rightarrow> real" where
  "hypot a b = sqrt (a\<^sup>2 + b\<^sup>2)"

text \<open>\<^verbatim>\<open>round(v, ndigits)\<close>: to the nearest multiple of \<open>10 ^ - ndigits\<close>, a tie to the even one.\<close>

definition round_half_even :: "real \<Rightarrow> int" where
  "round_half_even v =
     (let f = \<lfloor>v\<rfloor>; r = v - of_int f
      in if r < 1 / 2 then f else if 1 / 2 < r then f + 1 else if even f then f else f + 1)"

definition py_round :: "real \<Rightarrow> nat \<Rightarrow> real" where
  "py_round v ndigits = of_int (round_half_even (v * 10 ^ ndigits)) / 10 ^ ndigits"

text \<open>\<^verbatim>\<open>max(vs)\<close> keeps the first of the largest elements; \<^verbatim>\<open>vs[-1]\<close> is the last element.\<close>

definition py_max :: "real list \<Rightarrow> py_error + real" where
  "py_max vs =
     (case vs of [] \<Rightarrow> Inl ValueError
      | v # rest \<Rightarrow> Inr (foldl (\<lambda>m u. if m < u then u else m) v rest))"

definition py_last :: "real list \<Rightarrow> py_error + real" where
  "py_last vs = (if vs = [] then Inl IndexError else Inr (last vs))"

subsection \<open>Parameters, constants and state\<close>

record LaunchParams =
  bottle_volume_l :: real
  bottle_diameter_cm :: real
  nozzle_diameter_cm :: real
  water_volume_l :: real
  air_pressure_psi :: real
  soap_amount :: real
  wind_speed_ms :: real
  temperature_c :: real
  player :: string
  events_enabled :: bool

definition rho_water :: real where "rho_water = 1000"
definition rho_air :: real where "rho_air = 1.225"
definition g :: real where "g = 9.81"
definition Cd :: real where "Cd = 0.5"
definition dt :: real where "dt = 0.005"
definition t_max :: real where "t_max = 60"
definition gamma :: real where "gamma = 1.4"

text \<open>The locals that are assigned once, before the loop.\<close>

record flight_env =
  bottle_volume :: real
  nozzle_area :: real
  bottle_area :: real
  p_abs_init :: real
  dry_mass :: real
  air_vol_init :: real
  wind_speed :: real

text \<open>The locals that the loop updates; \<open>times\<close>, \<open>xs\<close> and \<open>ys\<close> are the recorded samples.\<close>

record flight_state =
  x :: real
  y :: real
  vx :: real
  vy :: real
  t :: real
  m_water :: real
  m_air :: real
  mass :: real
  p_abs :: real
  airborne :: bool
  times :: "real list"
  xs :: "real list"
  ys :: "real list"

text \<open>The returned dict: keys \<^verbatim>\<open>t\<close>, \<^verbatim>\<open>x\<close>, \<^verbatim>\<open>y\<close>, \<^verbatim>\<open>max_altitude_m\<close> and \<^verbatim>\<open>range_m\<close>.\<close>

record flight_result =
  traj_t :: "real list"
  traj_x :: "real list"
  traj_y :: "real list"
  max_altitude_m :: real
  range_m :: real

subsection \<open>The code before the loop\<close>

definition flight_setup :: "LaunchParams \<Rightarrow> py_error + flight_env \<times> flight_state" where
  "flight_setup p =
     (let bottle_volume = bottle_volume_l p / 1000;
          water_volume = max (min (water_volume_l p / 1000) bottle_volume) 0
      in bindE (py_pow ((nozzle_diameter_cm p / 100) / 2) 2) (\<lambda>nozzle_sq.
         bindE (py_pow ((bottle_diameter_cm p / 100) / 2) 2) (\<lambda>bottle_sq.
           let nozzle_area = pi * nozzle_sq;
               bottle_area = pi * bottle_sq;
               p_abs_init = air_pressure_psi p * 6894.76 + 101325;
               dry_mass = 0.15 + 0.1 * soap_amount p;
               m_water = rho_water * water_volume;
               init_air_volume = bottle_volume - water_volume;
               m_air = max init_air_volume 0 * rho_air;
               mass = dry_mass + m_water + m_air
           in Inr (\<lparr>bottle_volume = bottle_volume, nozzle_area = nozzle_area,
                     bottle_area = bottle_area, p_abs_init = p_abs_init,
                     dry_mass = dry_mass, air_vol_init = max init_air_volume (1 / 10 ^ 9),
                     wind_speed = wind_speed_ms p\<rparr>,
                   \<lparr>x = 0, y = 0, vx = 0, vy = 0, t = 0,
                     m_water = m_water, m_air = m_air, mass = mass, p_abs = p_abs_init,
                     airborne = False, times = [], xs = [], ys = []\<rparr>))))"

subsection \<open>One turn of the loop\<close>

definition pressure_water_phase :: "real \<Rightarrow> real \<Rightarrow> real \<Rightarrow> py_error + real" where
  "pressure_water_phase p0 air_vol_now vol_init =
     (if vol_init \<le> 0 then Inr 101325
      else bindE (py_div vol_init (max air_vol_now (1 / 10 ^ 9))) (\<lambda>q.
           bindE (py_pow q gamma) (\<lambda>r. Inr (101325 + (p0 - 101325) * r))))"

definition pressure_air_phase :: "real \<Rightarrow> real \<Rightarrow> py_error + real" where
  "pressure_air_phase p0 vol_ratio = bindE (py_pow vol_ratio (- gamma)) (\<lambda>r. Inr (p0 * r))"

text \<open>
  The \<^verbatim>\<open>if\<close>/\<^verbatim>\<open>elif\<close>/\<^verbatim>\<open>else\<close> block gives the thrust of this turn and the state with
  \<open>p_abs\<close>, \<open>m_water\<close>, \<open>m_air\<close> and \<open>mass\<close> updated. \<open>water_phase\<close> is the body of the
  \<^verbatim>\<open>if\<close>, \<open>air_phase\<close> the body of the \<^verbatim>\<open>elif\<close>.
\<close>

definition water_phase :: "flight_env \<Rightarrow> flight_state \<Rightarrow> py_error + real \<times> flight_state" where
  "water_phase e s =
     (let air_vol_now = bottle_volume e - m_water s / rho_water
      in bindE (pressure_water_phase (p_abs_init e) air_vol_now (air_vol_init e)) (\<lambda>pa.
           let dp = max (pa - 101325) 0
           in if 0 < dp then
                bindE (py_sqrt (2 * dp * rho_water)) (\<lambda>r1.
                bindE (py_sqrt (2 * dp / rho_water)) (\<lambda>r2.
                  let thrust = nozzle_area e * r1;
                      m_dot_w = rho_water * nozzle_area e * r2;
                      dm_w = min (m_dot_w * dt) (max (m_water s * 0.25) (1 / 10 ^ 6));
                      mw = m_water s - dm_w
                  in Inr (thrust,
                       s\<lparr>p_abs := pa, m_water := mw, mass := dry_mass e + mw + m_air s\<rparr>)))
              else Inr (0, s\<lparr>p_abs := pa, m_water := 0, mass := dry_mass e + m_air s\<rparr>)))"

definition air_phase :: "flight_env \<Rightarrow> flight_state \<Rightarrow> py_error + real \<times> flight_state" where
  "air_phase e s =
     bindE (py_div (bottle_volume e) (air_vol_init e)) (\<lambda>vol_ratio.
     bindE (pressure_air_phase (p_abs_init e) vol_ratio) (\<lambda>p_air.
       let dp = max (p_air - 101325) 0
       in if 0 < dp then
            bindE (py_sqrt (2 * dp / rho_air)) (\<lambda>r.
              let thrust = nozzle_area e * dp;
                  m_dot_a = nozzle_area e * rho_air * r;
                  dm_a = min (m_dot_a * dt) (max (m_air s * 0.25) (1 / 10 ^ 6));
                  ma = m_air s - dm_a
              in Inr (thrust, s\<lparr>m_air := ma, mass := dry_mass e + ma\<rparr>))
          else Inr (0, s\<lparr>m_air := 0, mass := dry_mass e\<rparr>)))"

definition propulsion :: "flight_env \<Rightarrow> flight_state \<Rightarrow> py_error + real \<times> flight_state" where
  "propulsion e s =
     (if 1 / 10 ^ 8 < m_water s \<and> 0 < nozzle_area e then water_phase e s
      else if 1 / 10 ^ 8 < m_air s \<and> 0 < nozzle_area e then air_phase e s
      else Inr (0, s\<lparr>mass := dry_mass e\<rparr>))"

text \<open>Drag, acceleration, the Euler update, the airborne flag, the samples and the clock.\<close>

definition kinematics :: "flight_env \<Rightarrow> real \<Rightarrow> flight_state \<Rightarrow> py_error + flight_state" where
  "kinematics e thrust s =
     (let v_rel_x = vx s - wind_speed e;
          v_rel_y = vy s;
          v_rel = hypot v_rel_x v_rel_y
      in bindE (py_pow v_rel 2) (\<lambda>v_sq.
         let drag = 0.5 * rho_air * v_sq * Cd * bottle_area e
         in bindE (py_div v_rel_x (v_rel + 1 / 10 ^ 9)) (\<lambda>ux.
            let drag_x = - drag * ux
            in bindE (py_div v_rel_y (v_rel + 1 / 10 ^ 9)) (\<lambda>uy.
               let drag_y = - drag * uy
               in bindE (py_div drag_x (mass s)) (\<lambda>ax.
                  bindE (py_div thrust (mass s)) (\<lambda>a_thrust.
                  bindE (py_div drag_y (mass s)) (\<lambda>a_drag.
                    let ay = a_thrust + a_drag - g;
                        vx' = vx s + ax * dt;
                        vy' = vy s + ay * dt;
                        x' = x s + vx' * dt;
                        y' = y s + vy' * dt
                    in Inr (s\<lparr>x := x', y := y', vx := vx', vy := vy',
                              airborne := (0 < y' \<or> airborne s),
                              times := times s @ [py_round (t s) 3],
                              xs := xs s @ [x'],
                              ys := ys s @ [max y' 0],
                              t := t s + dt\<rparr>))))))))"

definition step :: "flight_env \<Rightarrow> flight_state \<Rightarrow> py_error + flight_state" where
  "step e s = bindE (propulsion e s) (\<lambda>(thrust, s1). kinematics e thrust s1)"

text \<open>The test of the \<^verbatim>\<open>break\<close> at the end of a turn.\<close>

definition landed :: "flight_state \<Rightarrow> bool" where
  "landed s \<longleftrightarrow> airborne s \<and> y s \<le> 0 \<and> vy s \<le> 0"

lemma kinematics_t: "kinematics e thrust s = Inr s' \<Longrightarrow> t s' = t s + dt"
  by (auto simp: kinematics_def bindE_def Let_def split: sum.splits)

lemma propulsion_t: "propulsion e s = Inr (thrust, s1) \<Longrightarrow> t s1 = t s"
  by (auto simp: propulsion_def water_phase_def air_phase_def bindE_def Let_def
      split: sum.splits if_splits)

lemma step_t: "step e s = Inr s' \<Longrightarrow> t s' = t s + dt"
proof -
  assume st: "step e s = Inr s'"
  then obtain thrust s1 where pr: "propulsion e s = Inr (thrust, s1)"
    and kin: "kinematics e thrust s1 = Inr s'"
    by (auto simp: step_def bindE_def split: sum.splits)
  show ?thesis using propulsion_t [OF pr] kinematics_t [OF kin] by simp
qed

subsection \<open>The loop and the result\<close>

function flight_loop :: "flight_env \<Rightarrow> flight_state \<Rightarrow> py_error + flight_state" where
  "flight_loop e s =
     (if t s < t_max then
        (case step e s of
           Inl err \<Rightarrow> Inl err
         | Inr s' \<Rightarrow> if landed s' then Inr s' else flight_loop e s')
      else Inr s)"
  by pat_completeness auto
termination
proof (relation "measure (\<lambda>(e, s). nat \<lceil>(t_max - t s) / dt\<rceil>)")
  show "wf (measure (\<lambda>(e, s). nat \<lceil>(t_max - t s) / dt\<rceil>))" by simp
next
  fix e s s'
  assume lt: "t s < t_max" and st: "step e s = Inr s'"
  have eq: "t s' = t s + dt" using st by (rule step_t)
  have "(t_max - t s') / dt = (t_max - t s) / dt - 1"
    by (simp add: eq dt_def diff_divide_distrib)
  then have "\<lceil>(t_max - t s') / dt\<rceil> = \<lceil>(t_max - t s) / dt\<rceil> - 1" by simp
  moreover have "0 < (t_max - t s) / dt" using lt by (simp add: dt_def)
  then have "0 < \<lceil>(t_max - t s) / dt\<rceil>" by simp
  ultimately show "((e, s'), (e, s)) \<in> measure (\<lambda>(e, s). nat \<lceil>(t_max - t s) / dt\<rceil>)"
    by simp
qed

declare flight_loop.simps [simp del]

text \<open>The \<^verbatim>\<open>return\<close> statement, on the state the loop ended in.\<close>

definition assemble_result :: "flight_state \<Rightarrow> py_error + flight_result" where
  "assemble_result s =
     bindE (if ys s \<noteq> [] then bindE (py_max (ys s)) (\<lambda>m. Inr (py_round m 2)) else Inr 0)
       (\<lambda>max_altitude.
     bindE (if xs s \<noteq> [] then bindE (py_last (xs s)) (\<lambda>v. Inr (py_round v 2)) else Inr 0)
       (\<lambda>range.
       Inr \<lparr>traj_t = times s, traj_x = xs s, traj_y = ys s,
            max_altitude_m = max_altitude, range_m = range\<rparr>))"

definition simulate_flight :: "LaunchParams \<Rightarrow> py_error + flight_result" where
  "simulate_flight p =
     bindE (flight_setup p) (\<lambda>(e, s0). bindE (flight_loop e s0) assemble_result)"

text \<open>
  The state in which the loop tests its condition for the \<open>n\<close>-th time after the first,
  when the run gets that far: \<open>n\<close> turns were made, none raised and none broke out.
\<close>

fun loop_head :: "nat \<Rightarrow> flight_env \<Rightarrow> flight_state \<Rightarrow> flight_state option" where
  "loop_head 0 e s = Some s"
| "loop_head (Suc n) e s =
     (case loop_head n e s of
        None \<Rightarrow> None
      | Some s1 \<Rightarrow>
          if t s1 < t_max then
            (case step e s1 of
               Inl err \<Rightarrow> None
             | Inr s2 \<Rightarrow> if landed s2 then None else Some s2)
          else None)"

subsection \<open>Predicates used in the statements\<close>

text \<open>The documented ranges of the parameters.\<close>

definition valid_params :: "LaunchParams \<Rightarrow> bool" where
  "valid_params p \<longleftrightarrow>
     0 < bottle_volume_l p \<and> 0 < bottle_diameter_cm p \<and> 0 < nozzle_diameter_cm p \<and>
     0 \<le> air_pressure_psi p \<and> 0 \<le> soap_amount p"

text \<open>
  What the code before the loop establishes about the run's constants when
  \<open>soap_amount\<close> is not negative, what every turn keeps true of the two propellant
  masses, and what every turn keeps true of the recorded samples.
\<close>

definition samples_ok :: "flight_state \<Rightarrow> bool" where
  "samples_ok s \<longleftrightarrow>
     length (xs s) = length (times s) \<and> length (ys s) = length (times s) \<and>
     t s = real (length (times s)) * dt \<and> length (times s) \<le> 12000 \<and>
     (\<forall>h \<in> set (ys s). 0 \<le> h) \<and>
     (airborne s \<longleftrightarrow> (\<exists>h \<in> set (ys s). 0 < h)) \<and>
     (xs s \<noteq> [] \<longrightarrow> last (xs s) = x s) \<and>
     (ys s \<noteq> [] \<longrightarrow> last (ys s) = max (y s) 0)"

definition env_ok :: "flight_env \<Rightarrow> bool" where
  "env_ok e \<longleftrightarrow> 0.15 \<le> dry_mass e \<and> 1 / 10 ^ 9 \<le> air_vol_init e"

definition masses_ok :: "flight_env \<Rightarrow> flight_state \<Rightarrow> bool" where
  "masses_ok e s \<longleftrightarrow>
     - (1 / 10 ^ 6) < m_water s \<and> - (1 / 10 ^ 6) < m_air s \<and> (0 < m_air s \<longrightarrow> 0 < bottle_volume e)"

text \<open>The state that a turn's kinematics gives when nothing raises.\<close>

definition kin_next :: "flight_env \<Rightarrow> real \<Rightarrow> flight_state \<Rightarrow> flight_state" where
  "kin_next e thrust s =
     (let v_rel = hypot (vx s - wind_speed e) (vy s);
          drag = 0.5 * rho_air * v_rel\<^sup>2 * Cd * bottle_area e;
          ax = - drag * ((vx s - wind_speed e) / (v_rel + 1 / 10 ^ 9)) / mass s;
          ay = thrust / mass s + - drag * (vy s / (v_rel + 1 / 10 ^ 9)) / mass s - g;
          vx' = vx s + ax * dt;
          vy' = vy s + ay * dt;
          x' = x s + vx' * dt;
          y' = y s + vy' * dt
      in s\<lparr>x := x', y := y', vx := vx', vy := vy',
            airborne := (0 < y' \<or> airborne s),
            times := times s @ [py_round (t s) 3],
            xs := xs s @ [x'],
            ys := ys s @ [max y' 0],
            t := t s + dt\<rparr>)"

text \<open>
  A turn without propellant: no water left, and either no air left or air at ambient
  pressure in a bottle whose whole volume it fills.
\<close>

definition unpowered :: "flight_env \<Rightarrow> flight_state \<Rightarrow> bool" where
  "unpowered e s \<longleftrightarrow>
     m_water s \<le> 1 / 10 ^ 8 \<and> p_abs_init e = 101325 \<and> 0 < air_vol_init e \<and>
     (1 / 10 ^ 8 < m_air s \<longrightarrow> bottle_volume e = air_vol_init e)"

text \<open>
  The share of the relative velocity that drag removes in one turn of step \<open>dt\<close>:
  the new relative velocity is \<open>1 - drag_share\<close> times the old one.
\<close>

definition drag_share :: "flight_env \<Rightarrow> flight_state \<Rightarrow> real" where
  "drag_share e s =
     (let v_rel = hypot (vx s - wind_speed e) (vy s)
      in 0.5 * rho_air * Cd * bottle_area e * (v_rel\<^sup>2 / (v_rel + 1 / 10 ^ 9)) * dt / mass s)"

text \<open>
  The Euler step does not overshoot: over the whole run drag removes at most all of
  the relative velocity in a turn.
\<close>

definition stable_env :: "flight_env \<Rightarrow> bool" where
  "stable_env e \<longleftrightarrow>
     0 < dry_mass e \<and> 0 \<le> bottle_area e \<and>
     0.5 * rho_air * Cd * bottle_area e * dt * (\<bar>wind_speed e\<bar> + g * t_max) \<le> dry_mass e \<and>
     (\<bar>wind_speed e\<bar> + g * t_max)\<^sup>2 \<le> float_max"

definition falling :: "flight_env \<Rightarrow> flight_state \<Rightarrow> bool" where
  "falling e s \<longleftrightarrow>
     0 \<le> t s \<and> y s \<le> 0 \<and> - (g * t s) \<le> vy s \<and> vy s \<le> 0 \<and> \<not> airborne s \<and>
     (\<exists>\<theta>. 0 \<le> \<theta> \<and> \<theta> \<le> 1 \<and> vx s = \<theta> * wind_speed e) \<and>
     (\<forall>h \<in> set (ys s). h = 0) \<and> (wind_speed e = 0 \<longrightarrow> x s = 0)"

text \<open>What an unpowered run in a stable setting keeps true from turn to turn.\<close>

definition drifting :: "flight_env \<Rightarrow> flight_state \<Rightarrow> bool" where
  "drifting e s \<longleftrightarrow> falling e s \<and> unpowered e s \<and> samples_ok s"

subsection \<open>Parameter values used as examples\<close>

text \<open>
  An empty bottle at ambient pressure in still air; the same in a wind of 10 m/s; a
  bottle and a nozzle 10^200 cm wide; the same with more water than the bottle holds;
  and half a milligram of water under 50 psi.
\<close>

definition calm_params :: LaunchParams where
  "calm_params =
     \<lparr>bottle_volume_l = 2, bottle_diameter_cm = 10, nozzle_diameter_cm = 2,
      water_volume_l = 0, air_pressure_psi = 0, soap_amount = 0, wind_speed_ms = 0,
      temperature_c = 20, player = ''ada'', events_enabled = True\<rparr>"

definition windy_params :: LaunchParams where
  "windy_params = calm_params\<lparr>wind_speed_ms := 10\<rparr>"




section \<open>Properties of the hub\<close>

lemma broadcast_loop_filter:
  "\<forall>c \<in> set pre. send_ok c \<Longrightarrow>
   broadcast_loop send_ok message snap (pre @ snap, sent) =
     (pre @ filter send_ok snap, sent @ map (\<lambda>c. (c, message)) (filter send_ok snap))"
proof (induction snap arbitrary: pre sent)
  case Nil
  then show ?case by simp
next
  case (Cons c cs)
  show ?case
  proof (cases "send_ok c")
    case True
    have "\<forall>d \<in> set (pre @ [c]). send_ok d" using Cons.prems True by simp
    from Cons.IH [OF this, of "sent @ [(c, message)]"] True show ?thesis by simp
  next
    case False
    then have "c \<notin> set pre" using Cons.prems by blast
    then have "disconnect c (pre @ c # cs) = pre @ cs"
      by (simp add: disconnect_def remove1_append)
    with Cons.IH [OF Cons.prems, of sent] False show ?thesis by simp
  qed
qed

lemma broadcast_filter:
  "broadcast send_ok message conns =
     (filter send_ok conns, map (\<lambda>c. (c, message)) (filter send_ok conns))"
  using broadcast_loop_filter [of "[]" send_ok message conns "[]"]
  by (simp add: broadcast_def)

lemma filter_single_out:
  "distinct conns \<Longrightarrow> \<forall>c \<in> set conns. send_ok c \<longleftrightarrow> c \<noteq> k \<Longrightarrow>
   filter send_ok conns = remove1 k conns"
proof (induction conns)
  case Nil
  then show ?case by simp
next
  case (Cons a conns)
  show ?case
  proof (cases "a = k")
    case True
    then have "k \<notin> set conns" using Cons.prems(1) by simp
    then have "\<forall>c \<in> set conns. send_ok c" using Cons.prems(2) by auto
    then have "filter send_ok conns = conns" by (simp add: filter_id_conv)
    moreover have "\<not> send_ok a" using Cons.prems(2) True by simp
    ultimately show ?thesis using True by simp
  next
    case False
    then have "send_ok a" using Cons.prems(2) by simp
    moreover have "filter send_ok conns = remove1 k conns"
      using Cons.IH Cons.prems by simp
    ultimately show ?thesis using False by simp
  qed
qed






text \<open>
  C7. In a registry where delivery fails for viewer \<open>k\<close> and for no other, one
  \<open>broadcast\<close> call delivers the message to every other entry, in registry order, and
  leaves the registry without \<open>k\<close> and with every other viewer; in a registry of N
  distinct viewers that is N - 1 deliveries and exactly the entry of \<open>k\<close> removed. The
  call has no error result: the failure is caught inside the loop, and the deliveries
  after the failed one are made.
\<close>

theorem broadcast_one_failure:
  assumes "k \<in> set conns" and "\<forall>c \<in> set conns. send_ok c \<longleftrightarrow> c \<noteq> k"
  shows "broadcast send_ok message conns =
           (filter (\<lambda>c. c \<noteq> k) conns, map (\<lambda>c. (c, message)) (filter (\<lambda>c. c \<noteq> k) conns))
         \<and> set (fst (broadcast send_ok message conns)) = set conns - {k}
         \<and> (distinct conns \<longrightarrow>
              fst (broadcast send_ok message conns) = remove1 k conns
              \<and> length (snd (broadcast send_ok message conns)) = length conns - 1)"
proof -
  have fl: "filter send_ok conns = filter (\<lambda>c. c \<noteq> k) conns"
    using assms(2) by (intro filter_cong) auto
  have br: "broadcast send_ok message conns =
      (filter (\<lambda>c. c \<noteq> k) conns, map (\<lambda>c. (c, message)) (filter (\<lambda>c. c \<noteq> k) conns))"
    by (simp add: broadcast_filter fl)
  have st: "set (filter (\<lambda>c. c \<noteq> k) conns) = set conns - {k}" by auto
  have ds: "fst (broadcast send_ok message conns) = remove1 k conns
      \<and> length (snd (broadcast send_ok message conns)) = length conns - 1" if "distinct conns"
  proof -
    have "filter send_ok conns = remove1 k conns"
      using that assms(2) by (rule filter_single_out)
    then have "filter (\<lambda>c. c \<noteq> k) conns = remove1 k conns" by (simp only: fl)
    then show ?thesis using assms(1) by (simp add: br length_remove1)
  qed
  have "set (fst (broadcast send_ok message conns)) = set conns - {k}"
    using st by (simp only: br fst_conv)
  then show ?thesis using br ds by blast
qed

theorem broadcast_one_failure_witness:
  "broadcast (\<lambda>c. c \<noteq> (2::nat)) (JStr ''hi'') [1, 2, 3] =
     ([1, 3], [(1, JStr ''hi''), (3, JStr ''hi'')])"
  using broadcast_one_failure [of 2 "[1, 2, 3::nat]" "\<lambda>c. c \<noteq> 2" "JStr ''hi''"]
  by simp







section \<open>Properties of the simulator\<close>

subsection \<open>Operators\<close>

lemma bindE_Inr [simp]: "bindE (Inr v) f = f v"
  by (simp add: bindE_def)

lemma bindE_Inl [simp]: "bindE (Inl err) f = Inl err"
  by (simp add: bindE_def)

lemma float_max_lower: "10 ^ 300 \<le> float_max"
  by (simp add: float_max_def)


lemma py_pow_two: "py_pow a 2 = (if float_max < a\<^sup>2 then Inl OverflowError else Inr (a\<^sup>2))"
proof -
  have "\<bar>a\<bar> powr 2 = a\<^sup>2" if "a \<noteq> 0"
    using that powr_numeral [of "\<bar>a\<bar>" "Num.Bit0 Num.One"] by simp
  moreover have "0 \<le> float_max" using float_max_lower by (smt (verit) zero_le_power)
  ultimately show ?thesis
    by (cases "a = 0") (simp_all add: py_pow_def Let_def)
qed


subsection \<open>The propulsion block\<close>



lemma propulsion_frame:
  "propulsion e s = Inr (thrust, s1) \<Longrightarrow>
   x s1 = x s \<and> y s1 = y s \<and> vx s1 = vx s \<and> vy s1 = vy s \<and> t s1 = t s \<and>
   airborne s1 = airborne s \<and> times s1 = times s \<and> xs s1 = xs s \<and> ys s1 = ys s"
  by (auto simp: propulsion_def water_phase_def air_phase_def bindE_def Let_def split: sum.splits if_splits)



lemma propulsion_water:
  "1 / 10 ^ 8 < m_water s \<and> 0 < nozzle_area e \<Longrightarrow> propulsion e s = water_phase e s"
  by (auto simp: propulsion_def)

lemma propulsion_air:
  "\<not> (1 / 10 ^ 8 < m_water s \<and> 0 < nozzle_area e) \<Longrightarrow>
   1 / 10 ^ 8 < m_air s \<and> 0 < nozzle_area e \<Longrightarrow> propulsion e s = air_phase e s"
  by (auto simp: propulsion_def)

lemma propulsion_ballistic:
  "\<not> (1 / 10 ^ 8 < m_water s \<and> 0 < nozzle_area e) \<Longrightarrow>
   \<not> (1 / 10 ^ 8 < m_air s \<and> 0 < nozzle_area e) \<Longrightarrow>
   propulsion e s = Inr (0, s\<lparr>mass := dry_mass e\<rparr>)"
  by (auto simp: propulsion_def)


lemma water_phase_masses:
  assumes "water_phase e s = Inr (thrust, s1)" and "1 / 10 ^ 8 < m_water s"
  shows "- (1 / 10 ^ 6) < m_water s1 \<and> m_air s1 = m_air s
       \<and> dry_mass e + m_air s - 1 / 10 ^ 6 < mass s1"
  using assms
  by (auto simp: water_phase_def bindE_def Let_def split: sum.splits if_splits)

lemma air_phase_masses:
  assumes "air_phase e s = Inr (thrust, s1)" and "1 / 10 ^ 8 < m_air s"
  shows "- (1 / 10 ^ 6) < m_air s1 \<and> m_water s1 = m_water s
       \<and> dry_mass e - 1 / 10 ^ 6 < mass s1"
  using assms
  by (auto simp: air_phase_def bindE_def Let_def split: sum.splits if_splits)

lemma propulsion_masses:
  assumes "env_ok e" and "masses_ok e s" and "propulsion e s = Inr (thrust, s1)"
  shows "masses_ok e s1 \<and> 0 < mass s1"
proof -
  have dm: "0.15 \<le> dry_mass e" using assms(1) by (simp add: env_ok_def)
  have mw: "- (1 / 10 ^ 6) < m_water s" and ma: "- (1 / 10 ^ 6) < m_air s"
    and bv: "0 < m_air s \<longrightarrow> 0 < bottle_volume e"
    using assms(2) by (simp_all add: masses_ok_def)
  consider (water) "1 / 10 ^ 8 < m_water s \<and> 0 < nozzle_area e"
    | (air) "\<not> (1 / 10 ^ 8 < m_water s \<and> 0 < nozzle_area e)" "1 / 10 ^ 8 < m_air s \<and> 0 < nozzle_area e"
    | (ballistic) "\<not> (1 / 10 ^ 8 < m_water s \<and> 0 < nozzle_area e)" "\<not> (1 / 10 ^ 8 < m_air s \<and> 0 < nozzle_area e)"
    by blast
  then show ?thesis
  proof cases
    case water
    then have "water_phase e s = Inr (thrust, s1)" using assms(3) propulsion_water by metis
    from water_phase_masses [OF this] water show ?thesis
      using dm ma bv by (simp add: masses_ok_def)
  next
    case air
    then have "air_phase e s = Inr (thrust, s1)" using assms(3) propulsion_air by metis
    from air_phase_masses [OF this] air have
      a: "- (1 / 10 ^ 6) < m_air s1" and b: "m_water s1 = m_water s" and c: "dry_mass e - 1 / 10 ^ 6 < mass s1"
      by simp_all
    have "0 < m_air s" using air(2) by (smt (verit) divide_pos_pos zero_less_power)
    then have "0 < bottle_volume e" using bv by simp
    then show ?thesis using a b c dm mw by (simp add: masses_ok_def)
  next
    case ballistic
    then have "s1 = s\<lparr>mass := dry_mass e\<rparr>"
      using assms(3) propulsion_ballistic [of s e] by simp
    then show ?thesis using dm mw ma bv by (simp add: masses_ok_def)
  qed
qed

subsection \<open>Kinematics and one turn\<close>

lemma hypot_nonneg: "0 \<le> hypot a b"
  by (simp add: hypot_def)

lemma kinematics_eq:
  assumes "mass s \<noteq> 0"
  shows "kinematics e thrust s =
    (if float_max < (hypot (vx s - wind_speed e) (vy s))\<^sup>2 then Inl OverflowError
     else Inr (kin_next e thrust s))"
proof -
  have "hypot (vx s - wind_speed e) (vy s) + 1 / 10 ^ 9 \<noteq> 0"
    using hypot_nonneg [of "vx s - wind_speed e" "vy s"]
    by (smt (verit) divide_pos_pos zero_less_power)
  then have d1: "py_div a (hypot (vx s - wind_speed e) (vy s) + 1 / 10 ^ 9) =
      Inr (a / (hypot (vx s - wind_speed e) (vy s) + 1 / 10 ^ 9))" for a
    unfolding py_div_def by (simp only: if_False)
  have d2: "py_div a (mass s) = Inr (a / mass s)" for a
    unfolding py_div_def using assms by (simp only: if_False)
  show ?thesis
  proof (cases "float_max < (hypot (vx s - wind_speed e) (vy s))\<^sup>2")
    case True
    then show ?thesis
      unfolding kinematics_def Let_def py_pow_two by (simp only: if_True bindE_Inl)
  next
    case False
    then show ?thesis
      unfolding kinematics_def kin_next_def Let_def py_pow_two d1 d2
      by (simp only: if_False bindE_Inr)
  qed
qed

lemma kin_next_samples:
  "times (kin_next e thrust s) = times s @ [py_round (t s) 3]
   \<and> xs (kin_next e thrust s) = xs s @ [x (kin_next e thrust s)]
   \<and> ys (kin_next e thrust s) = ys s @ [max (y (kin_next e thrust s)) 0]
   \<and> airborne (kin_next e thrust s) = (0 < y (kin_next e thrust s) \<or> airborne s)
   \<and> t (kin_next e thrust s) = t s + dt
   \<and> m_water (kin_next e thrust s) = m_water s
   \<and> m_air (kin_next e thrust s) = m_air s"
  by (simp add: kin_next_def Let_def)

lemma kinematics_samples:
  assumes "kinematics e thrust s = Inr s'"
  shows "times s' = times s @ [py_round (t s) 3]
   \<and> xs s' = xs s @ [x s'] \<and> ys s' = ys s @ [max (y s') 0]
   \<and> airborne s' = (0 < y s' \<or> airborne s)
   \<and> m_water s' = m_water s \<and> m_air s' = m_air s"
  using assms
  by (auto simp: kinematics_def bindE_def Let_def split: sum.splits)

lemma step_Inr:
  "step e s = Inr s' \<longleftrightarrow> (\<exists>thrust s1. propulsion e s = Inr (thrust, s1) \<and> kinematics e thrust s1 = Inr s')"
  by (auto simp: step_def bindE_def split: sum.splits)

lemma step_samples:
  assumes "step e s = Inr s'"
  shows "times s' = times s @ [py_round (t s) 3]
   \<and> xs s' = xs s @ [x s'] \<and> ys s' = ys s @ [max (y s') 0]
   \<and> airborne s' = (0 < y s' \<or> airborne s)"
proof -
  from assms obtain thrust s1 where pr: "propulsion e s = Inr (thrust, s1)"
    and kin: "kinematics e thrust s1 = Inr s'" by (auto simp: step_Inr)
  show ?thesis using propulsion_frame [OF pr] kinematics_samples [OF kin] by simp
qed


lemma step_masses:
  assumes "env_ok e" and "masses_ok e s" and "step e s = Inr s'"
  shows "masses_ok e s'"
proof -
  from assms(3) obtain thrust s1 where pr: "propulsion e s = Inr (thrust, s1)"
    and kin: "kinematics e thrust s1 = Inr s'" by (auto simp: step_Inr)
  from propulsion_masses [OF assms(1,2) pr] kinematics_samples [OF kin]
  show ?thesis by (simp add: masses_ok_def)
qed

subsection \<open>The loop\<close>

lemma flight_loop_invariant:
  assumes "flight_loop e s = Inr sf" and "I s"
    and "\<And>s1 s2. I s1 \<Longrightarrow> t s1 < t_max \<Longrightarrow> step e s1 = Inr s2 \<Longrightarrow> I s2"
  shows "I sf"
  using assms
proof (induction e s rule: flight_loop.induct)
  case (1 e s)
  show ?case
  proof (cases "t s < t_max")
    case False
    then have "sf = s" using "1.prems"(1) by (simp add: flight_loop.simps)
    then show ?thesis using "1.prems"(2) by simp
  next
    case True
    then obtain s' where st: "step e s = Inr s'"
      using "1.prems"(1) by (cases "step e s") (simp_all add: flight_loop.simps)
    have I': "I s'" using "1.prems"(3) [OF "1.prems"(2) True st] .
    show ?thesis
    proof (cases "landed s'")
      case True
      then have "sf = s'" using "1.prems"(1) \<open>t s < t_max\<close> st by (simp add: flight_loop.simps)
      then show ?thesis using I' by simp
    next
      case False
      then have "flight_loop e s' = Inr sf"
        using "1.prems"(1) \<open>t s < t_max\<close> st by (simp add: flight_loop.simps)
      from "1.IH" [OF \<open>t s < t_max\<close> st False this I' "1.prems"(3)] show ?thesis by simp
    qed
  qed
qed

lemma flight_loop_exit:
  assumes "flight_loop e s = Inr sf"
  shows "\<not> t sf < t_max \<or> landed sf"
  using assms
proof (induction e s rule: flight_loop.induct)
  case (1 e s)
  show ?case
  proof (cases "t s < t_max")
    case False
    then have "sf = s" using "1.prems"(1) by (simp add: flight_loop.simps)
    then show ?thesis using False by simp
  next
    case True
    then obtain s' where st: "step e s = Inr s'"
      using "1.prems"(1) by (cases "step e s") (simp_all add: flight_loop.simps)
    show ?thesis
    proof (cases "landed s'")
      case True
      then have "sf = s'" using "1.prems"(1) \<open>t s < t_max\<close> st by (simp add: flight_loop.simps)
      then show ?thesis using True by simp
    next
      case False
      then have "flight_loop e s' = Inr sf"
        using "1.prems"(1) \<open>t s < t_max\<close> st by (simp add: flight_loop.simps)
      from "1.IH" [OF \<open>t s < t_max\<close> st False this] show ?thesis by simp
    qed
  qed
qed


subsection \<open>The code before the loop, the samples and the result\<close>

lemma flight_setup_Inr:
  assumes "flight_setup p = Inr (e, s0)"
  shows "dry_mass e = 0.15 + 0.1 * soap_amount p"
    and "air_vol_init e =
           max (bottle_volume_l p / 1000 - max (min (water_volume_l p / 1000) (bottle_volume_l p / 1000)) 0) (1 / 10 ^ 9)"
    and "bottle_volume e = bottle_volume_l p / 1000"
    and "nozzle_area e = pi * (nozzle_diameter_cm p / 100 / 2)\<^sup>2"
    and "bottle_area e = pi * (bottle_diameter_cm p / 100 / 2)\<^sup>2"
    and "p_abs_init e = air_pressure_psi p * 6894.76 + 101325"
    and "wind_speed e = wind_speed_ms p"
    and "m_water s0 = rho_water * max (min (water_volume_l p / 1000) (bottle_volume_l p / 1000)) 0"
    and "m_air s0 =
           max (bottle_volume_l p / 1000 - max (min (water_volume_l p / 1000) (bottle_volume_l p / 1000)) 0) 0 * rho_air"
    and "x s0 = 0" and "y s0 = 0" and "vx s0 = 0" and "vy s0 = 0" and "t s0 = 0"
    and "\<not> airborne s0" and "times s0 = []" and "xs s0 = []" and "ys s0 = []"
  using assms
  by (auto simp: flight_setup_def py_pow_two Let_def split: if_splits)


lemma flight_setup_ok:
  assumes "flight_setup p = Inr (e, s0)" and "0 \<le> soap_amount p"
  shows "env_ok e \<and> masses_ok e s0 \<and> samples_ok s0"
proof -
  note f = flight_setup_Inr [OF assms(1)]
  have "env_ok e" using assms(2) by (simp add: env_ok_def f)
  moreover have "samples_ok s0" by (simp add: samples_ok_def f)
  moreover have "masses_ok e s0"
    by (auto simp: masses_ok_def f rho_water_def rho_air_def max_def min_def)
  ultimately show ?thesis by simp
qed

lemma step_samples_ok:
  assumes "samples_ok s" and "t s < t_max" and "step e s = Inr s'"
  shows "samples_ok s'"
proof -
  note ss = step_samples [OF assms(3)]
  have tt: "t s' = t s + dt" using assms(3) by (rule step_t)
  have len: "length (times s) < 12000"
  proof -
    have "real (length (times s)) * dt < t_max" using assms(1,2) by (simp add: samples_ok_def)
    then have "real (length (times s)) < 12000" by (simp add: dt_def t_max_def)
    then show ?thesis by simp
  qed
  show ?thesis
    using assms(1) len ss tt unfolding samples_ok_def
    by (auto simp: algebra_simps)
qed

lemma py_max_Max: "vs \<noteq> [] \<Longrightarrow> py_max vs = Inr (Max (set vs))"
proof -
  assume "vs \<noteq> []"
  then obtain v rest where vs: "vs = v # rest" by (cases vs) auto
  have "(\<lambda>m u. if m < u then u else m) = (\<lambda>m u :: real. max u m)"
    by (auto simp: fun_eq_iff max_def)
  then have "foldl (\<lambda>m u. if m < u then u else m) v rest = fold max rest v"
    by (simp add: foldl_conv_fold)
  then show ?thesis using Max.set_eq_fold [of v rest] by (simp add: py_max_def vs)
qed

lemma assemble_result_eq:
  "assemble_result s =
     Inr \<lparr>traj_t = times s, traj_x = xs s, traj_y = ys s,
          max_altitude_m = (if ys s = [] then 0 else py_round (Max (set (ys s))) 2),
          range_m = (if xs s = [] then 0 else py_round (last (xs s)) 2)\<rparr>"
  by (simp add: assemble_result_def py_max_Max py_last_def)

lemma round_half_even_near: "\<bar>of_int (round_half_even v) - v\<bar> \<le> 1 / 2"
  unfolding round_half_even_def Let_def by (auto simp: abs_le_iff)

lemma py_round_near: "\<bar>py_round v n - v\<bar> \<le> 1 / (2 * 10 ^ n)"
proof -
  have "\<bar>py_round v n - v\<bar> = \<bar>of_int (round_half_even (v * 10 ^ n)) - v * 10 ^ n\<bar> / 10 ^ n"
    by (simp add: py_round_def abs_divide field_simps flip: abs_mult)
  also have "\<dots> \<le> (1 / 2) / 10 ^ n"
    by (intro divide_right_mono round_half_even_near) simp
  finally show ?thesis by simp
qed

lemma py_round_zero: "py_round 0 n = 0"
  by (simp add: py_round_def round_half_even_def)


lemma loop_head_invariant:
  assumes "loop_head n e s0 = Some s" and "I s0"
    and "\<And>s1 s2. I s1 \<Longrightarrow> t s1 < t_max \<Longrightarrow> step e s1 = Inr s2 \<Longrightarrow> I s2"
  shows "I s"
  using assms(1)
proof (induction n arbitrary: s)
  case 0
  then show ?case using assms(2) by simp
next
  case (Suc n)
  then obtain s1 where h: "loop_head n e s0 = Some s1" and lt: "t s1 < t_max"
    and st: "step e s1 = Inr s"
    by (auto split: option.splits if_splits sum.splits)
  from assms(3) [OF Suc.IH [OF h] lt st] show ?case .
qed

lemma loop_head_flight_loop:
  "loop_head n e s0 = Some s \<Longrightarrow> flight_loop e s0 = flight_loop e s"
proof (induction n arbitrary: s)
  case 0
  then show ?case by simp
next
  case (Suc n)
  then obtain s1 where h: "loop_head n e s0 = Some s1" and lt: "t s1 < t_max"
    and st: "step e s1 = Inr s" and nl: "\<not> landed s"
    by (auto split: option.splits if_splits sum.splits)
  have "flight_loop e s1 = flight_loop e s"
    using lt st nl by (subst flight_loop.simps) simp
  with Suc.IH [OF h] show ?case by simp
qed


subsection \<open>Runs without propellant\<close>

lemma float_max_ge: "a \<le> 10 ^ 300 \<Longrightarrow> a \<le> float_max"
  using float_max_lower by simp

lemma air_phase_ambient:
  assumes "p_abs_init e = 101325" and "0 < air_vol_init e" and "bottle_volume e = air_vol_init e"
  shows "air_phase e s = Inr (0, s\<lparr>m_air := 0, mass := dry_mass e\<rparr>)"
proof -
  have dv: "py_div (bottle_volume e) (air_vol_init e) = Inr 1"
    using assms(2,3) by (simp add: py_div_def)
  have "(1::real) \<le> float_max" by (rule float_max_ge) simp
  then have pw: "py_pow 1 (- gamma) = Inr 1"
    by (simp add: py_pow_def gamma_def Let_def)
  show ?thesis
    by (simp add: air_phase_def dv pressure_air_phase_def pw assms(1) Let_def)
qed

lemma unpowered_propulsion:
  assumes "unpowered e s"
  shows "\<exists>s1. propulsion e s = Inr (0, s1) \<and> mass s1 = dry_mass e \<and> m_water s1 = m_water s
           \<and> (m_air s1 = m_air s \<or> m_air s1 = 0)
           \<and> x s1 = x s \<and> y s1 = y s \<and> vx s1 = vx s \<and> vy s1 = vy s \<and> t s1 = t s"
proof -
  have nw: "\<not> (1 / 10 ^ 8 < m_water s \<and> 0 < nozzle_area e)"
    using assms by (auto simp: unpowered_def)
  show ?thesis
  proof (cases "1 / 10 ^ 8 < m_air s \<and> 0 < nozzle_area e")
    case True
    then have "bottle_volume e = air_vol_init e" using assms by (simp add: unpowered_def)
    from air_phase_ambient [OF _ _ this, of s] assms
    have "air_phase e s = Inr (0, s\<lparr>m_air := 0, mass := dry_mass e\<rparr>)"
      by (simp add: unpowered_def)
    then show ?thesis using propulsion_air [OF nw True] by simp
  next
    case False
    from propulsion_ballistic [OF nw False] show ?thesis by simp
  qed
qed

lemma unpowered_step:
  assumes "unpowered e s" and "step e s = Inr s'"
  shows "unpowered e s'"
proof -
  from assms(2) obtain thrust s1 where pr: "propulsion e s = Inr (thrust, s1)"
    and kin: "kinematics e thrust s1 = Inr s'" by (auto simp: step_Inr)
  from unpowered_propulsion [OF assms(1)] pr
  have "m_water s1 = m_water s" and "m_air s1 = m_air s \<or> m_air s1 = 0" by auto
  moreover from kinematics_samples [OF kin]
  have "m_water s' = m_water s1" and "m_air s' = m_air s1" by simp_all
  ultimately show ?thesis using assms(1) by (auto simp: unpowered_def)
qed

lemma flight_setup_unpowered:
  assumes "flight_setup p = Inr (e, s0)" and "air_pressure_psi p = 0" and "water_volume_l p = 0"
    and "0 < bottle_volume_l p"
  shows "unpowered e s0"
proof -
  note f = flight_setup_Inr [OF assms(1)]
  show ?thesis using assms(2-)
    by (auto simp: unpowered_def f rho_water_def rho_air_def max_def min_def)
qed

lemma kin_next_drag_share:
  assumes "mass s \<noteq> 0"
  shows "vx (kin_next e 0 s) = vx s - drag_share e s * (vx s - wind_speed e)"
    and "vy (kin_next e 0 s) = vy s - drag_share e s * vy s - g * dt"
    and "x (kin_next e 0 s) = x s + vx (kin_next e 0 s) * dt"
    and "y (kin_next e 0 s) = y s + vy (kin_next e 0 s) * dt"
proof -
  define v where "v = hypot (vx s - wind_speed e) (vy s)"
  define d where "d = v + 1 / 10 ^ 9"
  have "0 \<le> v" by (simp add: v_def hypot_nonneg)
  then have nz: "d \<noteq> 0" unfolding d_def by (smt (verit) divide_pos_pos zero_less_power)
  show "vx (kin_next e 0 s) = vx s - drag_share e s * (vx s - wind_speed e)"
    using assms nz
    unfolding kin_next_def drag_share_def Let_def v_def [symmetric] d_def [symmetric]
    by (simp add: field_simps)
  show "vy (kin_next e 0 s) = vy s - drag_share e s * vy s - g * dt"
    using assms nz
    unfolding kin_next_def drag_share_def Let_def v_def [symmetric] d_def [symmetric]
    by (simp add: field_simps)
  show "x (kin_next e 0 s) = x s + vx (kin_next e 0 s) * dt"
    unfolding kin_next_def Let_def by simp
  show "y (kin_next e 0 s) = y s + vy (kin_next e 0 s) * dt"
    unfolding kin_next_def Let_def by simp
qed

lemma hypot_le_sum: "hypot a b \<le> \<bar>a\<bar> + \<bar>b\<bar>"
  unfolding hypot_def by (rule sqrt_sum_squares_le_sum_abs)

lemma drag_quotient_bounds:
  assumes "0 \<le> (v::real)"
  shows "0 \<le> v\<^sup>2 / (v + 1 / 10 ^ 9)" and "v\<^sup>2 / (v + 1 / 10 ^ 9) \<le> v"
proof -
  have pos: "0 < v + 1 / 10 ^ 9" using assms by (smt (verit) divide_pos_pos zero_less_power)
  show "0 \<le> v\<^sup>2 / (v + 1 / 10 ^ 9)" using pos by simp
  have "v\<^sup>2 \<le> v * (v + 1 / 10 ^ 9)"
    using assms by (simp add: power2_eq_square distrib_left)
  then show "v\<^sup>2 / (v + 1 / 10 ^ 9) \<le> v" using pos by (simp add: pos_divide_le_eq)
qed

lemma falling_speed:
  assumes "stable_env e" and "falling e s" and "t s < t_max"
  shows "hypot (vx s - wind_speed e) (vy s) \<le> \<bar>wind_speed e\<bar> + g * t_max"
proof -
  from assms(2) obtain \<theta> where th: "0 \<le> \<theta>" "\<theta> \<le> 1" "vx s = \<theta> * wind_speed e"
    by (auto simp: falling_def)
  have "vx s - wind_speed e = - ((1 - \<theta>) * wind_speed e)" using th(3) by (simp add: algebra_simps)
  then have "\<bar>vx s - wind_speed e\<bar> = (1 - \<theta>) * \<bar>wind_speed e\<bar>"
    using th(2) by (simp add: abs_mult)
  also have "\<dots> \<le> 1 * \<bar>wind_speed e\<bar>"
    using th(1) by (intro mult_right_mono) simp_all
  finally have a: "\<bar>vx s - wind_speed e\<bar> \<le> \<bar>wind_speed e\<bar>" by simp
  have "\<bar>vy s\<bar> \<le> g * t s" using assms(2) by (simp add: falling_def)
  also have "\<dots> \<le> g * t_max" using assms(3) by (simp add: g_def)
  finally have b: "\<bar>vy s\<bar> \<le> g * t_max" .
  show ?thesis using hypot_le_sum [of "vx s - wind_speed e" "vy s"] a b by linarith
qed

lemma falling_drag_share:
  assumes "stable_env e" and "falling e s" and "t s < t_max" and "mass s = dry_mass e"
  shows "0 \<le> drag_share e s" and "drag_share e s \<le> 1"
proof -
  define v where "v = hypot (vx s - wind_speed e) (vy s)"
  define c where "c = 0.5 * rho_air * Cd * bottle_area e * dt"
  have v0: "0 \<le> v" by (simp add: v_def hypot_nonneg)
  have vb: "v \<le> \<bar>wind_speed e\<bar> + g * t_max"
    unfolding v_def using assms(1-3) by (rule falling_speed)
  have M: "0 < dry_mass e" and A: "0 \<le> bottle_area e"
    and st: "c * (\<bar>wind_speed e\<bar> + g * t_max) \<le> dry_mass e"
    using assms(1) by (simp_all add: stable_env_def c_def)
  have c0: "0 \<le> c" using A by (simp add: c_def rho_air_def Cd_def dt_def)
  have ds: "drag_share e s = c * (v\<^sup>2 / (v + 1 / 10 ^ 9)) / dry_mass e"
    by (simp add: drag_share_def Let_def v_def c_def assms(4))
  note q = drag_quotient_bounds [OF v0]
  have "0 \<le> c * (v\<^sup>2 / (v + 1 / 10 ^ 9))" using c0 q(1) by (rule mult_nonneg_nonneg)
  then show "0 \<le> drag_share e s" unfolding ds using M by (rule divide_nonneg_pos)
  have "c * (v\<^sup>2 / (v + 1 / 10 ^ 9)) \<le> c * v" using c0 q(2) by (rule mult_left_mono [rotated])
  also have "\<dots> \<le> c * (\<bar>wind_speed e\<bar> + g * t_max)" using c0 vb by (rule mult_left_mono [rotated])
  also note st
  finally have "c * (v\<^sup>2 / (v + 1 / 10 ^ 9)) \<le> dry_mass e" .
  then have "c * (v\<^sup>2 / (v + 1 / 10 ^ 9)) / dry_mass e \<le> dry_mass e / dry_mass e"
    using M by (intro divide_right_mono) simp_all
  then show "drag_share e s \<le> 1" unfolding ds using M by simp
qed

lemma falling_step:
  assumes st: "stable_env e" and fa: "falling e s" and lt: "t s < t_max" and un: "unpowered e s"
  shows "\<exists>s'. step e s = Inr s' \<and> falling e s'
           \<and> vx s' = vx s + drag_share e (s\<lparr>mass := dry_mass e\<rparr>) * (wind_speed e - vx s)
           \<and> x s' = x s + vx s' * dt"
proof -
  from unpowered_propulsion [OF un] obtain s1 where
    pr: "propulsion e s = Inr (0, s1)" and m1: "mass s1 = dry_mass e"
    and k1: "x s1 = x s" "y s1 = y s" "vx s1 = vx s" "vy s1 = vy s" "t s1 = t s"
    by blast
  have fr: "airborne s1 = airborne s" "ys s1 = ys s"
    using propulsion_frame [OF pr] by simp_all
  have fa1: "falling e s1" using fa k1 fr by (simp add: falling_def)
  have lt1: "t s1 < t_max" using lt k1 by simp
  have M: "0 < dry_mass e" using st by (simp add: stable_env_def)
  then have nz: "mass s1 \<noteq> 0" using m1 by simp
  define v where "v = hypot (vx s1 - wind_speed e) (vy s1)"
  have v0: "0 \<le> v" by (simp add: v_def hypot_nonneg)
  have vb: "v \<le> \<bar>wind_speed e\<bar> + g * t_max"
    unfolding v_def using st fa1 lt1 by (rule falling_speed)
  have "v\<^sup>2 \<le> (\<bar>wind_speed e\<bar> + g * t_max)\<^sup>2"
    using v0 vb by (rule power_mono [rotated])
  also have "\<dots> \<le> float_max" using st by (simp add: stable_env_def)
  finally have nov: "\<not> float_max < (hypot (vx s1 - wind_speed e) (vy s1))\<^sup>2"
    by (simp add: v_def)
  define s' where "s' = kin_next e 0 s1"
  have kin: "kinematics e 0 s1 = Inr s'"
    using kinematics_eq [OF nz, of e 0] nov by (simp add: s'_def)
  have stp: "step e s = Inr s'" using pr kin by (simp add: step_def)
  define lam where "lam = drag_share e s1"
  have l0: "0 \<le> lam" and l1: "lam \<le> 1"
    unfolding lam_def using falling_drag_share [OF st fa1 lt1 m1] by simp_all
  note kn = kin_next_drag_share [OF nz, of e, folded s'_def lam_def]
  note ks = kin_next_samples [of e 0 s1, folded s'_def]
  have g0: "0 \<le> g * dt" by (simp add: g_def dt_def)
  have t0: "0 \<le> t s1" and y0: "y s1 \<le> 0" and vlo: "- (g * t s1) \<le> vy s1" and vhi: "vy s1 \<le> 0"
    and na: "\<not> airborne s1" and hs: "\<forall>h \<in> set (ys s1). h = 0"
    and wx: "wind_speed e = 0 \<longrightarrow> x s1 = 0"
    using fa1 by (simp_all add: falling_def)
  from fa1 obtain \<theta> where th: "0 \<le> \<theta>" "\<theta> \<le> 1" "vx s1 = \<theta> * wind_speed e"
    by (auto simp: falling_def)
  have vy': "vy s' = vy s1 * (1 - lam) - g * dt" using kn(2) by (simp add: algebra_simps)
  have "vy s1 * (1 - lam) \<le> 0" using vhi l1 by (simp add: mult_nonpos_nonneg)
  then have vy'hi: "vy s' \<le> 0" using vy' g0 by linarith
  have "lam * vy s1 \<le> 0" using l0 vhi by (simp add: mult_nonneg_nonpos)
  then have "vy s1 - g * dt \<le> vy s'" using kn(2) by linarith
  moreover have "t s' = t s1 + dt" using ks by simp
  ultimately have vy'lo: "- (g * t s') \<le> vy s'" using vlo by (simp add: algebra_simps)
  have "vy s' * dt \<le> 0" using vy'hi by (simp add: dt_def)
  then have y': "y s' \<le> 0" using kn(4) y0 by linarith
  have t': "0 \<le> t s'" using \<open>t s' = t s1 + dt\<close> t0 by (simp add: dt_def)
  have na': "\<not> airborne s'" using ks na y' by simp
  have hs': "\<forall>h \<in> set (ys s'). h = 0" using ks hs y' by (simp add: max_def)
  define \<theta>' where "\<theta>' = \<theta> + lam * (1 - \<theta>)"
  have "vx s' = \<theta>' * wind_speed e" using kn(1) th(3) by (simp add: \<theta>'_def algebra_simps)
  moreover have "0 \<le> \<theta>'" unfolding \<theta>'_def using th l0 by simp
  moreover have "\<theta>' \<le> 1"
  proof -
    have "lam * (1 - \<theta>) \<le> 1 * (1 - \<theta>)" using l1 th(2) by (intro mult_right_mono) simp_all
    then show ?thesis by (simp add: \<theta>'_def)
  qed
  ultimately have thx: "\<exists>\<theta>. 0 \<le> \<theta> \<and> \<theta> \<le> 1 \<and> vx s' = \<theta> * wind_speed e" by blast
  have wx': "wind_speed e = 0 \<longrightarrow> x s' = 0" using kn(1,3) wx th(3) by auto
  have fa': "falling e s'"
    unfolding falling_def using t' y' vy'lo vy'hi na' thx hs' wx' by blast
  have ds: "drag_share e (s\<lparr>mass := dry_mass e\<rparr>) = lam"
    by (simp add: lam_def drag_share_def Let_def k1 m1)
  have "vx s' = vx s + lam * (wind_speed e - vx s)" using kn(1) k1 by (simp add: algebra_simps)
  moreover have "x s' = x s + vx s' * dt" using kn(3) k1 by simp
  ultimately show ?thesis using stp fa' ds by simp
qed

lemma flight_loop_returns:
  assumes "I s"
    and "\<And>s1. I s1 \<Longrightarrow> t s1 < t_max \<Longrightarrow> \<exists>s2. step e s1 = Inr s2 \<and> I s2"
  shows "\<exists>sf. flight_loop e s = Inr sf \<and> I sf"
  using assms
proof (induction e s rule: flight_loop.induct)
  case (1 e s)
  show ?case
  proof (cases "t s < t_max")
    case False
    then show ?thesis using "1.prems"(1) by (simp add: flight_loop.simps)
  next
    case True
    from "1.prems"(2) [OF "1.prems"(1) True]
    obtain s' where st: "step e s = Inr s'" and I': "I s'" by blast
    show ?thesis
    proof (cases "landed s'")
      case True
      then show ?thesis using \<open>t s < t_max\<close> st I' by (simp add: flight_loop.simps)
    next
      case False
      from "1.IH" [OF \<open>t s < t_max\<close> st False I' "1.prems"(2)]
      show ?thesis using \<open>t s < t_max\<close> st False by (simp add: flight_loop.simps)
    qed
  qed
qed

lemma drifting_step:
  assumes "stable_env e" and "drifting e s" and "t s < t_max"
  shows "\<exists>s'. step e s = Inr s' \<and> drifting e s'"
proof -
  from assms(2) have fa: "falling e s" and un: "unpowered e s" and so: "samples_ok s"
    by (simp_all add: drifting_def)
  from falling_step [OF assms(1) fa assms(3) un]
  obtain s' where st: "step e s = Inr s'" and fa': "falling e s'" by blast
  have "unpowered e s'" using un st by (rule unpowered_step)
  moreover have "samples_ok s'" using so assms(3) st by (rule step_samples_ok)
  ultimately show ?thesis using st fa' by (simp add: drifting_def)
qed

lemma drifting_end:
  assumes "drifting e sf" and "\<not> t sf < t_max \<or> landed sf"
  shows "length (times sf) = 12000 \<and> t_max \<le> t sf \<and> ys sf \<noteq> [] \<and> xs sf \<noteq> []
       \<and> Max (set (ys sf)) = 0 \<and> last (xs sf) = x sf"
proof -
  from assms(1) have fa: "falling e sf" and so: "samples_ok sf" by (simp_all add: drifting_def)
  have "\<not> landed sf" using fa by (simp add: landed_def falling_def)
  then have tm: "t_max \<le> t sf" using assms(2) by auto
  then have "t_max \<le> real (length (times sf)) * dt" using so by (simp add: samples_ok_def)
  then have "12000 \<le> length (times sf)" by (simp add: t_max_def dt_def)
  moreover have "length (times sf) \<le> 12000" using so by (simp add: samples_ok_def)
  ultimately have len: "length (times sf) = 12000" by simp
  then have ne: "ys sf \<noteq> []" "xs sf \<noteq> []" using so by (auto simp: samples_ok_def)
  have "set (ys sf) = {0}" using fa ne(1) by (cases "ys sf") (auto simp: falling_def)
  then have "Max (set (ys sf)) = 0" by simp
  moreover have "last (xs sf) = x sf" using so ne(2) by (simp add: samples_ok_def)
  ultimately show ?thesis using len tm ne by simp
qed

lemma drifting_run:
  assumes "stable_env e" and "drifting e s0"
  shows "\<exists>sf r. flight_loop e s0 = Inr sf \<and> drifting e sf \<and> assemble_result sf = Inr r
           \<and> length (traj_t r) = 12000 \<and> max_altitude_m r = 0
           \<and> range_m r = py_round (x sf) 2 \<and> t_max \<le> t sf"
proof -
  from flight_loop_returns [of "drifting e", OF assms(2) drifting_step [OF assms(1)]]
  obtain sf where fl: "flight_loop e s0 = Inr sf" and dr: "drifting e sf" by blast
  note en = drifting_end [OF dr flight_loop_exit [OF fl]]
  show ?thesis using fl dr en by (simp add: assemble_result_eq py_round_zero)
qed

lemma calm_setup:
  assumes va: "valid_params p" and psi: "air_pressure_psi p = 0" and wa: "water_volume_l p = 0"
    and bd: "bottle_diameter_cm p \<le> 30" and nd: "nozzle_diameter_cm p \<le> bottle_diameter_cm p"
    and wi: "\<bar>wind_speed_ms p\<bar> \<le> 100"
  shows "\<exists>e s0. flight_setup p = Inr (e, s0) \<and> stable_env e \<and> drifting e s0
           \<and> wind_speed e = wind_speed_ms p"
proof -
  have pos: "0 < bottle_diameter_cm p" "0 < nozzle_diameter_cm p" "0 \<le> soap_amount p"
    "0 < bottle_volume_l p"
    using va by (simp_all add: valid_params_def)
  have sq: "(d / 100 / 2)\<^sup>2 \<le> 9 / 400" if "0 < d" "d \<le> 30" for d :: real
  proof -
    have "0 \<le> d / 100 / 2" "d / 100 / 2 \<le> 3 / 20" using that by simp_all
    then have "(d / 100 / 2)\<^sup>2 \<le> (3 / 20)\<^sup>2" by (rule power_mono [rotated])
    then show ?thesis by (simp add: power2_eq_square)
  qed
  have nsq: "(nozzle_diameter_cm p / 100 / 2)\<^sup>2 \<le> 9 / 400" using pos nd bd by (intro sq) simp_all
  have bsq: "(bottle_diameter_cm p / 100 / 2)\<^sup>2 \<le> 9 / 400" using pos bd by (intro sq) simp_all
  have "(nozzle_diameter_cm p / 100 / 2)\<^sup>2 \<le> float_max" using nsq by (intro float_max_ge) simp
  moreover have "(bottle_diameter_cm p / 100 / 2)\<^sup>2 \<le> float_max"
    using bsq by (intro float_max_ge) simp
  ultimately have "\<exists>e s0. flight_setup p = Inr (e, s0)"
    by (simp add: flight_setup_def py_pow_two Let_def)
  then obtain e s0 where fs: "flight_setup p = Inr (e, s0)" by blast
  note f = flight_setup_Inr [OF fs]
  have M: "15 / 100 \<le> dry_mass e" using pos(3) by (simp add: f)
  have A0: "0 \<le> bottle_area e" by (simp add: f)
  have "pi * (bottle_diameter_cm p / 100 / 2)\<^sup>2 \<le> 4 * (9 / 400)"
    using pi_less_4 bsq by (intro mult_mono) simp_all
  then have A1: "bottle_area e \<le> 9 / 100" by (simp add: f)
  define W where "W = \<bar>wind_speed e\<bar> + g * t_max"
  have W0: "0 \<le> W" by (simp add: W_def g_def t_max_def)
  have W1: "W \<le> 6886 / 10" using wi by (simp add: W_def f g_def t_max_def)
  define z where "z = bottle_area e * W"
  have "bottle_area e * W \<le> 9 / 100 * (6886 / 10)"
    using A0 A1 W0 W1 by (intro mult_mono) simp_all
  then have "z \<le> 61974 / 1000" by (simp add: z_def)
  then have "0.5 * rho_air * Cd * dt * z \<le> 15 / 100"
    by (simp add: rho_air_def Cd_def dt_def)
  then have "0.5 * rho_air * Cd * dt * (bottle_area e * W) \<le> 15 / 100"
    by (simp only: z_def)
  then have st1: "0.5 * rho_air * Cd * bottle_area e * dt * W \<le> dry_mass e"
    using M by (simp add: mult_ac)
  have "W\<^sup>2 \<le> (6886 / 10)\<^sup>2" using W0 W1 by (rule power_mono [rotated])
  also have "\<dots> \<le> (10::real) ^ 300" by (simp add: power2_eq_square)
  finally have st2: "W\<^sup>2 \<le> float_max" by (rule float_max_ge)
  have st: "stable_env e"
    unfolding stable_env_def using M A0 st1 st2 by (simp add: W_def)
  have "falling e s0" by (simp add: falling_def f exI [of _ 0])
  moreover have "unpowered e s0" using fs psi wa pos(4) by (rule flight_setup_unpowered)
  moreover have "samples_ok s0" using flight_setup_ok [OF fs pos(3)] by simp
  ultimately have "drifting e s0" by (simp add: drifting_def)
  then show ?thesis using fs st f(7) by blast
qed

lemma unpowered_thrust:
  assumes "flight_setup p = Inr (e, s0)" and "air_pressure_psi p = 0" and "water_volume_l p = 0"
    and "0 < bottle_volume_l p" and "loop_head n e s0 = Some s"
  shows "\<exists>s1. propulsion e s = Inr (0, s1)"
proof -
  have "unpowered e s0" using assms(1-4) by (rule flight_setup_unpowered)
  then have "unpowered e s"
    using loop_head_invariant [of n e s0 s "unpowered e", OF assms(5)] unpowered_step by blast
  from unpowered_propulsion [OF this] show ?thesis by blast
qed

lemma calm_run:
  assumes va: "valid_params p" and psi: "air_pressure_psi p = 0" and wa: "water_volume_l p = 0"
    and bd: "bottle_diameter_cm p \<le> 30" and nd: "nozzle_diameter_cm p \<le> bottle_diameter_cm p"
    and wi: "\<bar>wind_speed_ms p\<bar> \<le> 100"
  shows "\<exists>r. simulate_flight p = Inr r \<and> length (traj_t r) = 12000 \<and> max_altitude_m r = 0
           \<and> (wind_speed_ms p = 0 \<longrightarrow> range_m r = 0)"
proof -
  from calm_setup [OF assms] obtain e s0 where fs: "flight_setup p = Inr (e, s0)"
    and st: "stable_env e" and dr: "drifting e s0" and w: "wind_speed e = wind_speed_ms p"
    by blast
  from drifting_run [OF st dr] obtain sf r where fl: "flight_loop e s0 = Inr sf"
    and drf: "drifting e sf" and ar: "assemble_result sf = Inr r"
    and r: "length (traj_t r) = 12000" "max_altitude_m r = 0" "range_m r = py_round (x sf) 2"
    by blast
  have sim: "simulate_flight p = Inr r" using fs fl ar by (simp add: simulate_flight_def)
  have "range_m r = 0" if "wind_speed_ms p = 0"
  proof -
    have "x sf = 0" using drf that w by (simp add: drifting_def falling_def)
    then show ?thesis using r(3) by (simp add: py_round_zero)
  qed
  then show ?thesis using sim r by blast
qed

lemma drag_quotient_lower:
  assumes "0 \<le> (v::real)"
  shows "v - 1 / 10 ^ 9 \<le> v\<^sup>2 / (v + 1 / 10 ^ 9)"
proof -
  have pos: "0 < v + 1 / 10 ^ 9" using assms by (smt (verit) divide_pos_pos zero_less_power)
  have "(v - 1 / 10 ^ 9) * (v + 1 / 10 ^ 9) = v\<^sup>2 - (1 / 10 ^ 9)\<^sup>2"
    by (simp add: power2_eq_square algebra_simps)
  also have "\<dots> \<le> v\<^sup>2" by simp
  finally show ?thesis using pos by (simp add: pos_le_divide_eq)
qed

lemma hypot_ge_abs: "\<bar>a\<bar> \<le> hypot a b"
proof -
  have "sqrt (a\<^sup>2) \<le> sqrt (a\<^sup>2 + b\<^sup>2)" by (rule real_sqrt_le_mono) simp
  then show ?thesis by (simp add: hypot_def)
qed

lemma downwind_step:
  assumes st: "stable_env e" and dr: "drifting e s" and lt: "t s < t_max"
    and w: "wind_speed e = 10" and A: "1 / 200 \<le> bottle_area e" and M: "dry_mass e = 15 / 100"
    and xb: "t s / 1000 \<le> x s"
  shows "\<exists>s'. step e s = Inr s' \<and> (drifting e s' \<and> t s' / 1000 \<le> x s')"
proof -
  from dr have fa: "falling e s" and un: "unpowered e s" and so: "samples_ok s"
    by (simp_all add: drifting_def)
  define s2 where "s2 = s\<lparr>mass := dry_mass e\<rparr>"
  define lam where "lam = drag_share e s2"
  from falling_step [OF st fa lt un]
  obtain s' where stp: "step e s = Inr s'" and fa': "falling e s'"
    and vx': "vx s' = vx s + lam * (wind_speed e - vx s)" and x': "x s' = x s + vx s' * dt"
    unfolding lam_def s2_def by blast
  have dr': "drifting e s'"
    using fa' unpowered_step [OF un stp] step_samples_ok [OF so lt stp] by (simp add: drifting_def)
  have fa2: "falling e s2" using fa by (simp add: falling_def s2_def)
  have l0: "0 \<le> lam"
    unfolding lam_def using falling_drag_share(1) [OF st fa2] lt by (simp add: s2_def)
  from fa obtain \<theta> where th: "0 \<le> \<theta>" "\<theta> \<le> 1" "vx s = \<theta> * wind_speed e"
    by (auto simp: falling_def)
  have v0: "0 \<le> vx s" and v1: "vx s \<le> 10" using th w by simp_all
  have fast: "1 / 1000 \<le> vx s'"
  proof (cases "1 / 1000 \<le> vx s")
    case True
    have "0 \<le> lam * (10 - vx s)" using l0 v1 by simp
    then show ?thesis using True vx' w by simp
  next
    case False
    define v where "v = hypot (vx s - 10) (vy s)"
    have "\<bar>vx s - 10\<bar> \<le> v" unfolding v_def by (rule hypot_ge_abs)
    then have v9: "9 \<le> v" using False by simp
    then have "0 \<le> v" by simp
    from drag_quotient_lower [OF this] v9 have q8: "8 \<le> v\<^sup>2 / (v + 1 / 10 ^ 9)" by simp
    define q where "q = v\<^sup>2 / (v + 1 / 10 ^ 9)"
    define z where "z = bottle_area e * q"
    have "lam = 0.5 * rho_air * Cd * bottle_area e * q * dt / (15 / 100)"
      by (simp add: lam_def drag_share_def s2_def Let_def w M v_def q_def)
    then have lam_eq: "lam = 0.5 * rho_air * Cd * z * dt / (15 / 100)"
      by (simp add: z_def mult_ac)
    have "1 / 200 * 8 \<le> bottle_area e * q"
      using A q8 unfolding q_def by (intro mult_mono) simp_all
    then have "1 / 25 \<le> z" by (simp add: z_def)
    then have "1 / 2500 \<le> lam"
      unfolding lam_eq by (simp add: rho_air_def Cd_def dt_def)
    moreover have "9 \<le> 10 - vx s" using False by simp
    ultimately have "1 / 2500 * 9 \<le> lam * (10 - vx s)" by (intro mult_mono) simp_all
    then show ?thesis using vx' w v0 by simp
  qed
  have tt: "t s' = t s + dt" using stp by (rule step_t)
  have "1 / 1000 * dt \<le> vx s' * dt" using fast by (intro mult_right_mono) (simp_all add: dt_def)
  then have "t s' / 1000 \<le> x s'" using x' xb tt by (simp add: field_simps)
  then show ?thesis using stp dr' by blast
qed

lemma windy_run: "\<exists>r. simulate_flight windy_params = Inr r \<and> 1 / 20 \<le> range_m r"
proof -
  have "\<exists>e s0. flight_setup windy_params = Inr (e, s0) \<and> stable_env e \<and> drifting e s0
           \<and> wind_speed e = wind_speed_ms windy_params"
    by (rule calm_setup) (simp_all add: windy_params_def calm_params_def valid_params_def)
  then obtain e s0 where fs: "flight_setup windy_params = Inr (e, s0)"
    and st: "stable_env e" and dr: "drifting e s0" and w: "wind_speed e = 10"
    by (auto simp: windy_params_def)
  note f = flight_setup_Inr [OF fs]
  have M: "dry_mass e = 15 / 100" by (simp add: f windy_params_def calm_params_def)
  have "2 * (1 / 400) \<le> pi * (1 / 400)" using pi_ge_two by (intro mult_right_mono) simp_all
  then have A: "1 / 200 \<le> bottle_area e"
    by (simp add: f windy_params_def calm_params_def power2_eq_square)
  have x0: "t s0 / 1000 \<le> x s0" by (simp add: f)
  have "\<exists>sf. flight_loop e s0 = Inr sf \<and> (drifting e sf \<and> t sf / 1000 \<le> x sf)"
    using dr x0 downwind_step [OF st _ _ w A M]
    by (intro flight_loop_returns [of "\<lambda>s. drifting e s \<and> t s / 1000 \<le> x s"]) blast+
  then obtain sf where fl: "flight_loop e s0 = Inr sf" and drf: "drifting e sf"
    and xf: "t sf / 1000 \<le> x sf" by blast
  note en = drifting_end [OF drf flight_loop_exit [OF fl]]
  define r where "r = \<lparr>traj_t = times sf, traj_x = xs sf, traj_y = ys sf,
          max_altitude_m = (if ys sf = [] then 0 else py_round (Max (set (ys sf))) 2),
          range_m = (if xs sf = [] then 0 else py_round (last (xs sf)) 2)\<rparr>"
  have sim: "simulate_flight windy_params = Inr r"
    using fs fl by (simp add: simulate_flight_def assemble_result_eq r_def)
  have rg: "range_m r = py_round (x sf) 2" using en by (simp add: r_def)
  have "6 / 100 \<le> x sf" using xf en by (simp add: t_max_def)
  moreover have "\<bar>py_round (x sf) 2 - x sf\<bar> \<le> 1 / 200"
    using py_round_near [of "x sf" 2] by simp
  then have "x sf - 1 / 200 \<le> py_round (x sf) 2" by linarith
  ultimately have "1 / 20 \<le> range_m r" unfolding rg by linarith
  then show ?thesis using sim by blast
qed

subsection \<open>The outcome of a run\<close>













subsection \<open>Leaving the loop\<close>

lemma calm_loop:
  "\<exists>e s0 sf. flight_setup calm_params = Inr (e, s0) \<and> flight_loop e s0 = Inr sf
      \<and> drifting e s0 \<and> drifting e sf"
proof -
  have "\<exists>e s0. flight_setup calm_params = Inr (e, s0) \<and> stable_env e \<and> drifting e s0
           \<and> wind_speed e = wind_speed_ms calm_params"
    by (rule calm_setup) (simp_all add: calm_params_def valid_params_def)
  then obtain e s0 where fs: "flight_setup calm_params = Inr (e, s0)"
    and st: "stable_env e" and dr: "drifting e s0" by blast
  from drifting_run [OF st dr] fs dr show ?thesis by blast
qed

text \<open>
  C6. The loop of a run ends after at most 12000 turns. When it ends after fewer, the
  \<^verbatim>\<open>break\<close> was taken: the airborne flag is set, the unclamped height and the vertical
  velocity are both at most zero, and some recorded height is above zero (a recorded
  height is the unclamped one floored at zero, so it is above zero exactly when the
  unclamped height was). A run in which no recorded height is above zero never breaks:
  it makes all 12000 turns and ends at the time cutoff. From a state at or past the
  cutoff the loop returns at once, whatever the flight state.
\<close>

theorem loop_exit_conditions:
  assumes "flight_setup p = Inr (e, s0)" and "flight_loop e s0 = Inr sf"
  shows "length (times sf) \<le> 12000
       \<and> (length (times sf) < 12000 \<longrightarrow>
            airborne sf \<and> y sf \<le> 0 \<and> vy sf \<le> 0 \<and> (\<exists>h \<in> set (ys sf). 0 < h))
       \<and> (t sf < t_max \<longrightarrow> airborne sf \<and> y sf \<le> 0 \<and> vy sf \<le> 0)
       \<and> (airborne sf \<longleftrightarrow> (\<exists>h \<in> set (ys sf). 0 < h))
       \<and> ((\<forall>h \<in> set (ys sf). h \<le> 0) \<longrightarrow> length (times sf) = 12000 \<and> t_max \<le> t sf)
       \<and> (\<forall>s. t_max \<le> t s \<longrightarrow> flight_loop e s = Inr s)"
proof -
  have "samples_ok s0" by (simp add: samples_ok_def flight_setup_Inr [OF assms(1)])
  then have so: "samples_ok sf"
    using flight_loop_invariant [of e s0 sf samples_ok, OF assms(2)] step_samples_ok by blast
  have ex: "\<not> t sf < t_max \<or> landed sf" using assms(2) by (rule flight_loop_exit)
  have len: "length (times sf) \<le> 12000" and tt: "t sf = real (length (times sf)) * dt"
    and ab: "airborne sf \<longleftrightarrow> (\<exists>h \<in> set (ys sf). 0 < h)"
    using so by (simp_all add: samples_ok_def)
  have full: "length (times sf) = 12000 \<and> t_max \<le> t sf" if "\<not> t sf < t_max"
  proof -
    have "t_max \<le> real (length (times sf)) * dt" using that tt by simp
    then have "12000 \<le> length (times sf)" by (simp add: t_max_def dt_def)
    then show ?thesis using len that by simp
  qed
  have early: "airborne sf \<and> y sf \<le> 0 \<and> vy sf \<le> 0 \<and> (\<exists>h \<in> set (ys sf). 0 < h)"
    if "length (times sf) < 12000"
  proof -
    have "landed sf" using ex full that by auto
    then show ?thesis using ab by (simp add: landed_def)
  qed
  have never: "length (times sf) = 12000 \<and> t_max \<le> t sf" if "\<forall>h \<in> set (ys sf). h \<le> 0"
  proof -
    have "\<not> airborne sf" using ab that by fastforce
    then have "\<not> landed sf" by (simp add: landed_def)
    then show ?thesis using ex full by blast
  qed
  have cut: "\<forall>s. t_max \<le> t s \<longrightarrow> flight_loop e s = Inr s"
    by (simp add: flight_loop.simps)
  have brk: "airborne sf \<and> y sf \<le> 0 \<and> vy sf \<le> 0" if "t sf < t_max"
    using ex that by (simp add: landed_def)
  show ?thesis using len early brk ab never cut by blast
qed

theorem loop_exit_conditions_witness:
  "\<exists>e s0 sf. flight_setup calm_params = Inr (e, s0) \<and> flight_loop e s0 = Inr sf
      \<and> length (times sf) = 12000 \<and> \<not> airborne sf"
proof -
  from calm_loop obtain e s0 sf where fs: "flight_setup calm_params = Inr (e, s0)"
    and fl: "flight_loop e s0 = Inr sf" and dr: "drifting e sf" by blast
  have na: "\<not> airborne sf" and h0: "\<forall>h \<in> set (ys sf). h = 0"
    using dr by (simp_all add: drifting_def falling_def)
  from h0 have "\<forall>h \<in> set (ys sf). h \<le> 0" by auto
  note na this
  with loop_exit_conditions [OF fs fl] fs fl show ?thesis by blast
qed

subsection \<open>The mass in the divisions\<close>

text \<open>
  C10. When \<open>soap_amount\<close> is not negative, in every turn of the loop the mass that the
  accelerations are divided by (the one the propulsion block of that turn assigns) is
  above zero: the dry mass is at least 0.15 and neither propellant mass is ever
  0.000001 or more below zero. So every division by it is defined and the turn's
  kinematics never raises \<^verbatim>\<open>ZeroDivisionError\<close>.
\<close>

theorem mass_divisor_positive:
  assumes "0 \<le> soap_amount p" and "flight_setup p = Inr (e, s0)"
    and "loop_head n e s0 = Some s" and "propulsion e s = Inr (thrust, s1)"
  shows "0 < mass s1 \<and> 15 / 100 \<le> dry_mass e
       \<and> - (1 / 10 ^ 6) < m_water s1 \<and> - (1 / 10 ^ 6) < m_air s1
       \<and> (\<forall>a. py_div a (mass s1) = Inr (a / mass s1))
       \<and> kinematics e thrust s1 \<noteq> Inl ZeroDivisionError"
proof -
  from flight_setup_ok [OF assms(2,1)] have eo: "env_ok e" and mo: "masses_ok e s0" by simp_all
  have ms: "masses_ok e s"
    using loop_head_invariant [of n e s0 s "masses_ok e", OF assms(3) mo] step_masses [OF eo]
    by blast
  from propulsion_masses [OF eo ms assms(4)] have m1: "masses_ok e s1" and pos: "0 < mass s1"
    by simp_all
  have nz: "mass s1 \<noteq> 0" using pos by simp
  have "kinematics e thrust s1 \<noteq> Inl ZeroDivisionError"
    using kinematics_eq [OF nz, of e thrust] by simp
  moreover have "\<forall>a. py_div a (mass s1) = Inr (a / mass s1)" using nz by (simp add: py_div_def)
  ultimately show ?thesis using pos eo m1 by (simp add: env_ok_def masses_ok_def)
qed

theorem mass_divisor_positive_witness:
  "\<exists>e s0 thrust s1. flight_setup calm_params = Inr (e, s0)
      \<and> propulsion e s0 = Inr (thrust, s1) \<and> 0 < mass s1"
proof -
  from calm_loop obtain e s0 where fs: "flight_setup calm_params = Inr (e, s0)"
    and dr: "drifting e s0" by blast
  have "unpowered e s0" using dr by (simp add: drifting_def)
  from unpowered_propulsion [OF this] obtain s1 where pr: "propulsion e s0 = Inr (0, s1)"
    by blast
  have so: "0 \<le> soap_amount calm_params" by (simp add: calm_params_def)
  have lh: "loop_head 0 e s0 = Some s0" by simp
  from mass_divisor_positive [OF so fs lh pr] fs pr show ?thesis by blast
qed

subsection \<open>Zero pressure and no water\<close>

text \<open>
  C2, as the claim states it, fails: with zero pressure, no water and a wind of 10 m/s
  (parameters otherwise ordinary) the drag of the wind carries the rocket downwind
  for the whole 60 s, and the returned range is at least 0.05, not 0.
\<close>

theorem wind_moves_unpowered_rocket:
  "valid_params windy_params \<and> air_pressure_psi windy_params = 0
   \<and> water_volume_l windy_params = 0
   \<and> (\<exists>r. simulate_flight windy_params = Inr r \<and> range_m r \<noteq> 0)"
proof -
  from windy_run obtain r where "simulate_flight windy_params = Inr r" "1 / 20 \<le> range_m r"
    by blast
  then have "\<exists>r. simulate_flight windy_params = Inr r \<and> range_m r \<noteq> 0" by force
  then show ?thesis by (simp add: valid_params_def windy_params_def calm_params_def)
qed

text \<open>
  C2, amended. With zero pressure and no water, inside the documented ranges, the
  propulsion block gives zero thrust in every turn of the loop. When moreover the
  bottle diameter is at most 30 cm, the nozzle diameter at most the bottle's, and the
  wind speed at most 100 m/s in magnitude, the run returns after all 12000 turns with
  \<open>max_altitude_m = 0\<close>; and \<open>range_m = 0\<close> when the wind speed is zero (with wind, drag
  moves the rocket horizontally and the range is not zero).
\<close>

theorem unpowered_flight:
  assumes "valid_params p" and "air_pressure_psi p = 0" and "water_volume_l p = 0"
  shows "(\<forall>e s0 n s. flight_setup p = Inr (e, s0) \<and> loop_head n e s0 = Some s \<longrightarrow>
            (\<exists>s1. propulsion e s = Inr (0, s1)))
       \<and> (bottle_diameter_cm p \<le> 30 \<and> nozzle_diameter_cm p \<le> bottle_diameter_cm p
            \<and> \<bar>wind_speed_ms p\<bar> \<le> 100 \<longrightarrow>
           (\<exists>r. simulate_flight p = Inr r \<and> length (traj_t r) = 12000
                \<and> max_altitude_m r = 0 \<and> (wind_speed_ms p = 0 \<longrightarrow> range_m r = 0)))"
proof -
  have bv: "0 < bottle_volume_l p" using assms(1) by (simp add: valid_params_def)
  have "\<exists>s1. propulsion e s = Inr (0, s1)"
    if "flight_setup p = Inr (e, s0)" "loop_head n e s0 = Some s" for e s0 n s
    using unpowered_thrust [OF that(1) assms(2,3) bv that(2)] .
  moreover have "\<exists>r. simulate_flight p = Inr r \<and> length (traj_t r) = 12000
                \<and> max_altitude_m r = 0 \<and> (wind_speed_ms p = 0 \<longrightarrow> range_m r = 0)"
    if "bottle_diameter_cm p \<le> 30" "nozzle_diameter_cm p \<le> bottle_diameter_cm p"
      "\<bar>wind_speed_ms p\<bar> \<le> 100"
    using calm_run [OF assms that] .
  ultimately show ?thesis by blast
qed

theorem unpowered_flight_witness:
  "\<exists>r. simulate_flight calm_params = Inr r \<and> length (traj_t r) = 12000
      \<and> max_altitude_m r = 0 \<and> range_m r = 0"
  using unpowered_flight [of calm_params]
  by (simp add: valid_params_def calm_params_def)

subsection \<open>The cap on the ejected mass\<close>










end
